theory Spec2Isabelle
  imports Complex_Main "HOL-Library.Word"
begin

section \<open>Host functions used by the audio path\<close>

text \<open>
  The audio path of the application is the callback \<open>playVoice\<close> of the \<open>App\<close> component
  (src/types.ts, lines 92-121). It calls four host facilities: \<open>atob\<close>, the typed arrays
  \<open>Uint8Array\<close>, \<open>Int16Array\<close> and \<open>Float32Array\<close>, and the Web Audio objects
  \<open>AudioContext\<close>, \<open>AudioBuffer\<close> and \<open>AudioBufferSourceNode\<close>. Each is modelled below after
  the standard that defines it, with every exception it can throw on the arguments the
  callback passes as a value of \<open>js_error\<close>.
\<close>

datatype js_error =
    InvalidCharacterError  \<comment> \<open>the DOMException of \<open>atob\<close>\<close>
  | RangeError             \<comment> \<open>typed-array construction and \<open>set\<close>\<close>
  | NotSupportedError      \<comment> \<open>the DOMException of \<open>createBuffer\<close>\<close>
  | IndexSizeError         \<comment> \<open>the DOMException of \<open>getChannelData\<close>\<close>

subsection \<open>atob: the forgiving base64 decoder\<close>

text \<open>
  \<open>atob\<close> runs the forgiving-base64 decode of the WHATWG Infra standard: ASCII whitespace
  is removed; when the remaining length is a multiple of four, one or two trailing \<open>=\<close> are
  removed; a remaining length of 1 modulo 4 fails; any remaining character outside the
  alphabet \<open>A-Z a-z 0-9 + /\<close> fails; then every character contributes six bits, every 24
  bits give three bytes, and a final group of 12 or 18 bits gives one or two bytes, its
  last four or two bits being discarded. The payload is a \<open>string\<close>, whose characters are
  the code units 0 to 255; a code unit beyond 255 is outside the alphabet like any other
  foreign character.
\<close>

definition is_ascii_whitespace :: "char \<Rightarrow> bool" where
  "is_ascii_whitespace c \<longleftrightarrow>
     c = CHR 0x09 \<or> c = CHR 0x0A \<or> c = CHR 0x0C \<or> c = CHR 0x0D \<or> c = CHR 0x20"

definition base64_value :: "char \<Rightarrow> nat option" where
  "base64_value c =
     (let n = (of_char c :: nat) in
      if 65 \<le> n \<and> n \<le> 90 then Some (n - 65)
      else if 97 \<le> n \<and> n \<le> 122 then Some (n - 71)
      else if 48 \<le> n \<and> n \<le> 57 then Some (n + 4)
      else if n = 43 then Some 62
      else if n = 47 then Some 63
      else None)"

definition strip_padding :: "string \<Rightarrow> string" where
  "strip_padding d =
     (if length d mod 4 = 0 then
        (if 2 \<le> length d \<and> drop (length d - 2) d = ''=='' then take (length d - 2) d
         else if 1 \<le> length d \<and> drop (length d - 1) d = ''='' then take (length d - 1) d
         else d)
      else d)"

fun sextets_to_bytes :: "nat list \<Rightarrow> nat list" where
  "sextets_to_bytes (a # b # c # d # rest) =
     (let n = ((a * 64 + b) * 64 + c) * 64 + d
      in n div 65536 # (n div 256) mod 256 # n mod 256 # sextets_to_bytes rest)"
| "sextets_to_bytes [a, b, c] =
     (let n = (a * 64 + b) * 64 + c
      in [n div 1024, (n div 4) mod 256])"
| "sextets_to_bytes [a, b] = [(a * 64 + b) div 16]"
| "sextets_to_bytes _ = []"

definition atob :: "string \<Rightarrow> js_error + string" where
  "atob s =
     (let d = strip_padding (filter (\<lambda>c. \<not> is_ascii_whitespace c) s) in
      if length d mod 4 = 1 then Inl InvalidCharacterError
      else
        (case those (map base64_value d) of
           None \<Rightarrow> Inl InvalidCharacterError
         | Some vs \<Rightarrow> Inr (map char_of (sextets_to_bytes vs))))"

subsection \<open>Typed arrays\<close>

text \<open>
  \<open>Uint8Array.from(binary, c => c.charCodeAt(0))\<close> makes one byte of every character of
  the binary string; its \<open>buffer\<close> holds exactly these bytes.
\<close>

definition Uint8Array_from :: "string \<Rightarrow> 8 word list" where
  "Uint8Array_from binary = map (\<lambda>c. word_of_nat (of_char c)) binary"

text \<open>
  \<open>new Int16Array(buffer)\<close> views a whole buffer as 16-bit elements. ECMAScript throws a
  RangeError when the byte length of the buffer is not a multiple of the element size.
  The view reads each element in the byte order of the platform, which is little-endian
  on the hosts the application runs on: the first byte of a pair is the low one.
\<close>

fun int16_elements :: "8 word list \<Rightarrow> 16 word list" where
  "int16_elements (lo # hi # rest) = word_cat hi lo # int16_elements rest"
| "int16_elements _ = []"

definition new_Int16Array :: "8 word list \<Rightarrow> js_error + 16 word list" where
  "new_Int16Array buffer =
     (if length buffer mod 2 \<noteq> 0 then Inl RangeError else Inr (int16_elements buffer))"

text \<open>
  \<open>new Float32Array(n)\<close> holds \<open>n\<close> zeros. \<open>target.set(source)\<close> copies \<open>source\<close> to the
  front of \<open>target\<close>, and throws a RangeError when \<open>source\<close> is longer than \<open>target\<close>.
  The elements are modelled as real numbers: every value the callback stores is a 16-bit
  integer divided by \<open>2 ^ 15\<close>, which binary32 and binary64 both represent exactly (lemma
  \<open>normalizeSample_exact\<close> below), so no rounding takes place.
\<close>

definition new_Float32Array :: "nat \<Rightarrow> real list" where
  "new_Float32Array n = replicate n 0"

definition typed_array_set :: "real list \<Rightarrow> real list \<Rightarrow> js_error + real list" where
  "typed_array_set target source =
     (if length target < length source then Inl RangeError
      else Inr (source @ drop (length source) target))"

subsection \<open>Web Audio\<close>

text \<open>
  An \<open>AudioContext\<close> is created with a sample rate; the host is taken to provide
  Web Audio, so that the constructor returns. \<open>createBuffer\<close> throws a
  NotSupportedError when an argument is zero or outside its nominal range; the nominal
  ranges every implementation must support include one channel and 24000 Hz, and a
  length of at least one frame is required. The new buffer holds silence.
  \<open>getChannelData\<close> gives the samples of one channel and throws an IndexSizeError for a
  channel the buffer does not have.
\<close>

record audio_context =
  ctx_sampleRate :: nat

record audio_buffer =
  numberOfChannels :: nat
  buffer_length :: nat
  sampleRate :: nat
  channels :: "real list list"

definition createBuffer :: "nat \<Rightarrow> nat \<Rightarrow> nat \<Rightarrow> js_error + audio_buffer" where
  "createBuffer nchannels len rate =
     (if nchannels = 0 \<or> len = 0 \<or> rate = 0 then Inl NotSupportedError
      else Inr \<lparr>numberOfChannels = nchannels, buffer_length = len, sampleRate = rate,
                channels = replicate nchannels (new_Float32Array len)\<rparr>)"

definition getChannelData :: "audio_buffer \<Rightarrow> nat \<Rightarrow> js_error + real list" where
  "getChannelData buffer channel =
     (if channel < numberOfChannels buffer \<and> channel < length (channels buffer)
      then Inr (channels buffer ! channel) else Inl IndexSizeError)"

text \<open>
  The calls the callback makes on the host, in program order. A call is logged when it is
  made, whether it returns or throws. \<open>SetSourceBuffer\<close> is the assignment
  \<open>source.buffer = buffer\<close> and carries the buffer as it is at that moment; \<open>Start\<close> is
  \<open>source.start()\<close>, the playback invocation.
\<close>

datatype host_call =
    NewAudioContext nat
  | Atob string
  | CreateBuffer nat nat nat
  | CreateBufferSource
  | SetSourceBuffer audio_buffer
  | Connect
  | Start

section \<open>The component state\<close>

text \<open>
  \<open>audioContextRef\<close> is the ref of the component (\<open>useRef<AudioContext | null>(null)\<close>);
  \<open>calls\<close> is the log of host calls made so far. \<open>isVoiceEnabled\<close> is React state that
  the callback closes over and never writes: it is an argument of the model.
\<close>

record app_state =
  audioContextRef :: "audio_context option"
  calls :: "host_call list"

definition initial_state :: app_state where
  "initial_state = \<lparr>audioContextRef = None, calls = []\<rparr>"

definition log_call :: "host_call \<Rightarrow> app_state \<Rightarrow> app_state" where
  "log_call c st = st\<lparr>calls := calls st @ [c]\<rparr>"

section \<open>playVoice\<close>

text \<open>Lines 95-98: the context is made on first use and kept in the ref.\<close>

definition ensureContext :: "app_state \<Rightarrow> audio_context \<times> app_state" where
  "ensureContext st =
     (case audioContextRef st of
        Some ctx \<Rightarrow> (ctx, st)
      | None \<Rightarrow>
          (let ctx = \<lparr>ctx_sampleRate = 24000\<rparr>
           in (ctx, log_call (NewAudioContext 24000) (st\<lparr>audioContextRef := Some ctx\<rparr>))))"

text \<open>Lines 102-105: base64 text to bytes to 16-bit samples.\<close>

definition decodePcm :: "string \<Rightarrow> js_error + 16 word list" where
  "decodePcm base64 =
     (case atob base64 of
        Inl e \<Rightarrow> Inl e
      | Inr binary \<Rightarrow> new_Int16Array (Uint8Array_from binary))"

text \<open>
  Lines 111-114: the loop that fills \<open>normalizedData\<close>. \<open>normalizeSample\<close> is the right-hand
  side \<open>dataInt16[i] / 32768.0\<close> of its assignment. A write to a typed array beyond its
  length is ignored, as \<open>list_update\<close> does.
\<close>

definition normalizeSample :: "16 word \<Rightarrow> real" where
  "normalizeSample s = real_of_int (sint s) / 32768"

function normalize_loop :: "16 word list \<Rightarrow> nat \<Rightarrow> real list \<Rightarrow> real list" where
  "normalize_loop dataInt16 i normalizedData =
     (if i < length dataInt16
      then normalize_loop dataInt16 (i + 1)
             (normalizedData[i := normalizeSample (dataInt16 ! i)])
      else normalizedData)"
  by pat_completeness auto
termination
  by (relation "measure (\<lambda>(dataInt16, i, normalizedData). length dataInt16 - i)") auto

declare normalize_loop.simps [simp del]

definition normalizeSamples :: "16 word list \<Rightarrow> real list" where
  "normalizeSamples dataInt16 =
     normalize_loop dataInt16 0 (new_Float32Array (length dataInt16))"

text \<open>
  JavaScript truthiness of the argument: \<open>undefined\<close> (here \<open>None\<close>) and the empty string
  are falsy, every other string is truthy.
\<close>

fun falsy :: "string option \<Rightarrow> bool" where
  "falsy None = True"
| "falsy (Some s) = (s = [])"

text \<open>
  Lines 95-120, the callback after its guard. The result is \<open>Inl e\<close> when the promise of
  the async callback rejects with \<open>e\<close>, and \<open>Inr ()\<close> when it resolves.
\<close>

definition play :: "string \<Rightarrow> app_state \<Rightarrow> (js_error + unit) \<times> app_state" where
  "play base64 st0 =
     (let (ctx, st1) = ensureContext st0;
          st2 = log_call (Atob base64) st1
      in case decodePcm base64 of
           Inl e \<Rightarrow> (Inl e, st2)
         | Inr dataInt16 \<Rightarrow>
             (let st3 = log_call (CreateBuffer 1 (length dataInt16) 24000) st2
              in case createBuffer 1 (length dataInt16) 24000 of
                   Inl e \<Rightarrow> (Inl e, st3)
                 | Inr buffer \<Rightarrow>
                     (case getChannelData buffer 0 of
                        Inl e \<Rightarrow> (Inl e, st3)
                      | Inr channelData \<Rightarrow>
                          (let normalizedData = normalizeSamples dataInt16
                           in case typed_array_set channelData normalizedData of
                                Inl e \<Rightarrow> (Inl e, st3)
                              | Inr channelData' \<Rightarrow>
                                  (let buffer' = buffer\<lparr>channels := (channels buffer)[0 := channelData']\<rparr>;
                                       st4 = log_call CreateBufferSource st3;
                                       st5 = log_call (SetSourceBuffer buffer') st4;
                                       st6 = log_call Connect st5;
                                       st7 = log_call Start st6
                                   in (Inr (), st7))))))"

text \<open>Line 93 and the rest: \<open>if (!isVoiceEnabled || !base64) return;\<close>\<close>

definition playVoice :: "bool \<Rightarrow> string option \<Rightarrow> app_state \<Rightarrow> (js_error + unit) \<times> app_state" where
  "playVoice isVoiceEnabled base64 st =
     (if \<not> isVoiceEnabled \<or> falsy base64 then (Inr (), st)
      else case base64 of
             Some b \<Rightarrow> play b st
           | None \<Rightarrow> (Inr (), st))"

text \<open>A session: the calls of \<open>playVoice\<close> one after the other, whatever each returns.\<close>

fun session :: "(bool \<times> string option) list \<Rightarrow> app_state \<Rightarrow> app_state" where
  "session [] st = st"
| "session ((enabled, base64) # rest) st = session rest (snd (playVoice enabled base64 st))"

definition new_calls :: "app_state \<Rightarrow> app_state \<Rightarrow> host_call list" where
  "new_calls before after = drop (length (calls before)) (calls after)"

section \<open>generateSenseiVoice\<close>

text \<open>
  src/services/geminiService.ts, lines 88-103. The response of the provider has every
  level optional, as the types of its SDK declare: \<open>candidates?\<close>, \<open>content?\<close>, \<open>parts?\<close>,
  \<open>inlineData?\<close>, \<open>data?\<close>. The awaited call \<open>ai.models.generateContent\<close> is a parameter;
  \<open>Inl e\<close> is its rejection, which the function does not catch.
\<close>

record blob =
  data :: "string option"

record part =
  inlineData :: "blob option"

record content =
  parts :: "part list option"

record candidate =
  content :: "content option"

record generate_content_response =
  candidates :: "candidate list option"

record tts_request =
  model :: string
  prompt :: string
  voiceName :: string

text \<open>\<open>xs?.[0]\<close>: nothing when \<open>xs\<close> is absent or has no first element.\<close>

definition first_element :: "'a list option \<Rightarrow> 'a option" where
  "first_element xs = (case xs of None \<Rightarrow> None | Some [] \<Rightarrow> None | Some (x # _) \<Rightarrow> Some x)"

text \<open>\<open>response.candidates?.[0]?.content?.parts?.[0]?.inlineData?.data\<close>\<close>

definition inline_audio_data :: "generate_content_response \<Rightarrow> string option" where
  "inline_audio_data response =
     Option.bind (first_element (candidates response)) (\<lambda>c.
     Option.bind (content c) (\<lambda>ct.
     Option.bind (first_element (parts ct)) (\<lambda>p.
     Option.bind (inlineData p) data)))"

text \<open>\<open>x || ''\<close>: the empty string when \<open>x\<close> is falsy, \<open>x\<close> otherwise.\<close>

definition or_empty :: "string option \<Rightarrow> string" where
  "or_empty x = (if falsy x then [] else case x of Some s \<Rightarrow> s | None \<Rightarrow> [])"

definition tts_request_of :: "string \<Rightarrow> tts_request" where
  "tts_request_of text =
     \<lparr>model = ''gemini-2.5-flash-preview-tts'',
      prompt = ''Speak as a motivating coding mentor in a cool, calm tone. Use this script: '' @ text,
      voiceName = ''Kore''\<rparr>"

definition generateSenseiVoice ::
  "(tts_request \<Rightarrow> 'e + generate_content_response) \<Rightarrow> string \<Rightarrow> 'e + string" where
  "generateSenseiVoice generateContent text =
     (case generateContent (tts_request_of text) of
        Inl e \<Rightarrow> Inl e
      | Inr response \<Rightarrow> Inr (or_empty (inline_audio_data response)))"

text \<open>
  A response that lacks the audio at some level, written level by level: no candidates
  or none in the list, no content, no parts or none in the list, no inline data, no data
  or empty data.
\<close>

definition lacks_audio :: "generate_content_response \<Rightarrow> bool" where
  "lacks_audio response =
     (case candidates response of
        None \<Rightarrow> True
      | Some [] \<Rightarrow> True
      | Some (c # _) \<Rightarrow>
          (case content c of
             None \<Rightarrow> True
           | Some ct \<Rightarrow>
               (case parts ct of
                  None \<Rightarrow> True
                | Some [] \<Rightarrow> True
                | Some (p # _) \<Rightarrow>
                    (case inlineData p of
                       None \<Rightarrow> True
                     | Some b \<Rightarrow> data b = None \<or> data b = Some []))))"

section \<open>Test vectors: the standard base64 encoding\<close>

text \<open>
  The specification speaks of payloads that encode a given byte sequence, and of
  standard base64 text with correct padding. Neither an encoder nor a validity check is
  part of the application; both are written here after the specification's words and
  RFC 4648, section 4, which defines that text: the encoder is what the host's \<open>btoa\<close>
  computes on a binary string, and \<open>standard_base64\<close> accepts groups of four alphabet
  characters, the last group possibly ending in one or two \<open>=\<close>.
\<close>

definition base64_char :: "nat \<Rightarrow> char" where
  "base64_char v =
     (if v < 26 then char_of (v + 65)
      else if v < 52 then char_of (v + 71)
      else if v < 62 then char_of (v - 4)
      else if v = 62 then CHR ''+''
      else CHR ''/'')"

fun encode_bytes :: "nat list \<Rightarrow> string" where
  "encode_bytes (x # y # z # rest) =
     (let n = (x * 256 + y) * 256 + z
      in base64_char (n div 262144) # base64_char ((n div 4096) mod 64) #
         base64_char ((n div 64) mod 64) # base64_char (n mod 64) # encode_bytes rest)"
| "encode_bytes [x, y] =
     (let n = (x * 256 + y) * 4
      in [base64_char (n div 4096), base64_char ((n div 64) mod 64), base64_char (n mod 64),
          CHR ''=''])"
| "encode_bytes [x] =
     (let n = x * 16
      in [base64_char (n div 64), base64_char (n mod 64), CHR ''='', CHR ''=''])"
| "encode_bytes [] = []"

definition base64_encode :: "8 word list \<Rightarrow> string" where
  "base64_encode bytes = encode_bytes (map unat bytes)"

definition int16_le_bytes :: "16 word \<Rightarrow> 8 word list" where
  "int16_le_bytes s = [ucast s, ucast (drop_bit 8 s)]"

definition pcm_bytes :: "16 word list \<Rightarrow> 8 word list" where
  "pcm_bytes samples = concat (map int16_le_bytes samples)"

definition is_base64_char :: "char \<Rightarrow> bool" where
  "is_base64_char c \<longleftrightarrow> base64_value c \<noteq> None"

fun standard_base64 :: "string \<Rightarrow> bool" where
  "standard_base64 [] = True"
| "standard_base64 [a, b, c, d] =
     (is_base64_char a \<and> is_base64_char b \<and>
      (if c = CHR ''='' then d = CHR ''=''
       else is_base64_char c \<and> (d = CHR ''='' \<or> is_base64_char d)))"
| "standard_base64 (a # b # c # d # rest) =
     (is_base64_char a \<and> is_base64_char b \<and> is_base64_char c \<and> is_base64_char d \<and>
      standard_base64 rest)"
| "standard_base64 _ = False"

text \<open>
  For the proofs: the six-bit values the encoder emits before they become characters,
  and the padding it appends.
\<close>

fun encode_sextets :: "nat list \<Rightarrow> nat list" where
  "encode_sextets (x # y # z # rest) =
     (let n = (x * 256 + y) * 256 + z
      in n div 262144 # (n div 4096) mod 64 # (n div 64) mod 64 # n mod 64 # encode_sextets rest)"
| "encode_sextets [x, y] =
     (let n = (x * 256 + y) * 4
      in [n div 4096, (n div 64) mod 64, n mod 64])"
| "encode_sextets [x] = (let n = x * 16 in [n div 64, n mod 64])"
| "encode_sextets [] = []"

definition padding :: "nat list \<Rightarrow> string" where
  "padding bs = replicate ((3 - length bs mod 3) mod 3) (CHR ''='')"

section \<open>Notions used in the statements\<close>

text \<open>
  What \<open>ensureContext\<close> adds to the log and leaves in the ref, and the buffer that a call
  hands to its source node when it has decoded the samples \<open>ss\<close>.
\<close>

definition context_calls :: "app_state \<Rightarrow> host_call list" where
  "context_calls st =
     (case audioContextRef st of None \<Rightarrow> [NewAudioContext 24000] | Some ctx \<Rightarrow> [])"

definition context_after :: "app_state \<Rightarrow> audio_context" where
  "context_after st =
     (case audioContextRef st of None \<Rightarrow> \<lparr>ctx_sampleRate = 24000\<rparr> | Some ctx \<Rightarrow> ctx)"

definition filled_buffer :: "16 word list \<Rightarrow> audio_buffer" where
  "filled_buffer ss =
     \<lparr>numberOfChannels = 1, buffer_length = length ss, sampleRate = 24000,
      channels = [map normalizeSample ss]\<rparr>"

text \<open>
  What a call that passes the guard does after \<open>ensureContext\<close>, as a function of the
  payload alone: its result and the host calls it logs (lemma \<open>play_summary\<close>).
\<close>

definition play_result :: "string \<Rightarrow> js_error + unit" where
  "play_result b =
     (case decodePcm b of
        Inl e \<Rightarrow> Inl e
      | Inr ss \<Rightarrow> if ss = [] then Inl NotSupportedError else Inr ())"

definition decode_calls :: "string \<Rightarrow> host_call list" where
  "decode_calls b =
     (case decodePcm b of
        Inl e \<Rightarrow> [Atob b]
      | Inr ss \<Rightarrow>
          if ss = [] then [Atob b, CreateBuffer 1 0 24000]
          else [Atob b, CreateBuffer 1 (length ss) 24000, CreateBufferSource,
                SetSourceBuffer (filled_buffer ss), Connect, Start])"

text \<open>
  A call of a session passes the guard of line 93 when voice is enabled and the payload
  is truthy. \<open>contexts_created\<close> counts the contexts made so far.
\<close>

definition passes_guard :: "bool \<times> string option \<Rightarrow> bool" where
  "passes_guard c \<longleftrightarrow> fst c \<and> \<not> falsy (snd c)"

fun is_NewAudioContext :: "host_call \<Rightarrow> bool" where
  "is_NewAudioContext (NewAudioContext rate) = True"
| "is_NewAudioContext c = False"

fun is_buffer_or_source :: "host_call \<Rightarrow> bool" where
  "is_buffer_or_source (CreateBuffer n l r) = True"
| "is_buffer_or_source CreateBufferSource = True"
| "is_buffer_or_source c = False"

definition contexts_created :: "app_state \<Rightarrow> nat" where
  "contexts_created st = length (filter is_NewAudioContext (calls st))"

section \<open>The state and the log\<close>

lemma calls_log_call [simp]: "calls (log_call c st) = calls st @ [c]"
  by (simp add: log_call_def)

lemma ref_log_call [simp]: "audioContextRef (log_call c st) = audioContextRef st"
  by (simp add: log_call_def)

lemma calls_ensureContext: "calls (snd (ensureContext st)) = calls st @ context_calls st"
  by (simp add: ensureContext_def context_calls_def Let_def split: option.split)

lemma ref_ensureContext: "audioContextRef (snd (ensureContext st)) = Some (context_after st)"
  by (simp add: ensureContext_def context_after_def Let_def split: option.split)

section \<open>The normalisation loop\<close>

text \<open>
  The invariant of the loop: before the iteration for index \<open>i\<close> the first \<open>i\<close> elements
  of the output are as they were written and the rest of the input is still to come.
\<close>

lemma normalize_loop_inv:
  "i \<le> length d \<Longrightarrow> length out = length d \<Longrightarrow>
   normalize_loop d i out = take i out @ map normalizeSample (drop i d)"
proof (induction d i out rule: normalize_loop.induct)
  case (1 d i out)
  show ?case
  proof (cases "i < length d")
    case True
    let ?out = "out[i := normalizeSample (d ! i)]"
    have "normalize_loop d i out = normalize_loop d (i + 1) ?out"
      using True by (subst normalize_loop.simps) simp
    also have "\<dots> = take (i + 1) ?out @ map normalizeSample (drop (i + 1) d)"
      using True "1.prems" by (intro "1.IH") simp_all
    also have "take (i + 1) ?out = take i out @ [normalizeSample (d ! i)]"
      using True "1.prems" by (simp add: take_Suc_conv_app_nth)
    also have "(take i out @ [normalizeSample (d ! i)]) @ map normalizeSample (drop (i + 1) d)
        = take i out @ map normalizeSample (drop i d)"
      using True by (simp add: Cons_nth_drop_Suc [symmetric])
    finally show ?thesis .
  next
    case False
    then show ?thesis using "1.prems" by (subst normalize_loop.simps) simp
  qed
qed

lemma normalizeSamples_map: "normalizeSamples d = map normalizeSample d"
  by (simp add: normalizeSamples_def new_Float32Array_def normalize_loop_inv)

section \<open>The three outcomes of a call that passes the guard\<close>

lemma play_decode_error:
  assumes "decodePcm b = Inl e"
  shows "play b st = (Inl e, log_call (Atob b) (snd (ensureContext st)))"
  using assms by (simp add: play_def split_beta)

lemma play_no_samples:
  assumes "decodePcm b = Inr []"
  shows "play b st = (Inl NotSupportedError,
           log_call (CreateBuffer 1 0 24000) (log_call (Atob b) (snd (ensureContext st))))"
  using assms by (simp add: play_def createBuffer_def split_beta)

lemma play_samples:
  assumes "decodePcm b = Inr ss" and "ss \<noteq> []"
  shows "fst (play b st) = Inr ()"
    and "audioContextRef (snd (play b st)) = Some (context_after st)"
    and "calls (snd (play b st)) = calls st @ context_calls st @
           [Atob b, CreateBuffer 1 (length ss) 24000, CreateBufferSource,
            SetSourceBuffer (filled_buffer ss), Connect, Start]"
  using assms
  by (simp_all add: play_def createBuffer_def getChannelData_def new_Float32Array_def
      typed_array_set_def normalizeSamples_map filled_buffer_def calls_ensureContext
      ref_ensureContext split_beta)

section \<open>Decoding\<close>

lemma atob_Nil: "atob [] = Inr []"
  by (simp add: atob_def strip_padding_def)

lemma atob_error: "atob s = Inl e \<Longrightarrow> e = InvalidCharacterError"
  by (auto simp: atob_def Let_def split: if_splits option.splits)

lemma length_int16_elements: "length (int16_elements bs) = length bs div 2"
  by (induction bs rule: int16_elements.induct) simp_all

lemma length_Uint8Array_from [simp]: "length (Uint8Array_from binary) = length binary"
  by (simp add: Uint8Array_from_def)

lemma decodePcm_odd:
  assumes "atob p = Inr binary" and "odd (length binary)"
  shows "decodePcm p = Inl RangeError"
  using assms by (simp add: decodePcm_def new_Int16Array_def odd_iff_mod_2_eq_one)

lemma decodePcm_even:
  assumes "atob p = Inr binary" and "even (length binary)"
  shows "decodePcm p = Inr (int16_elements (Uint8Array_from binary))"
  using assms by (simp add: decodePcm_def new_Int16Array_def)

lemma decodePcm_Nil: "decodePcm [] = Inr []"
  by (simp add: decodePcm_def atob_Nil new_Int16Array_def Uint8Array_from_def)

lemma decodePcm_atob_error: "atob p = Inl e \<Longrightarrow> decodePcm p = Inl InvalidCharacterError"
  using atob_error [of p e] by (simp add: decodePcm_def)

section \<open>Normalised samples\<close>

lemma sint16_range: "- 32768 \<le> sint (s :: 16 word) \<and> sint s < 32768"
  using sint_ge [of s] sint_lt [of s] by simp

lemma normalizeSample_range: "- 1 \<le> normalizeSample s \<and> normalizeSample s < 1"
proof -
  have "real_of_int (- 32768) \<le> real_of_int (sint s)"
    and "real_of_int (sint s) < real_of_int 32768"
    using sint16_range [of s] by (simp_all only: of_int_le_iff of_int_less_iff)
  then show ?thesis
    unfolding normalizeSample_def by (simp del: of_int_sint)
qed

text \<open>
  Every normalised sample is an integer of at most 16 bits scaled by \<open>2 ^ 15\<close>: a value
  of binary32, whose significand has 24 bits and whose exponents reach far below \<open>-15\<close>.
  The double-precision division and the store into the \<open>Float32Array\<close> are therefore exact.
\<close>

lemma normalizeSample_exact:
  "\<exists>m::int. \<bar>m\<bar> \<le> 32768 \<and> normalizeSample s = real_of_int m / 2 ^ 15"
proof -
  have "\<bar>sint s\<bar> \<le> 32768" using sint16_range [of s] by linarith
  moreover have "normalizeSample s = real_of_int (sint s) / 2 ^ 15"
    unfolding normalizeSample_def by (simp del: of_int_sint)
  ultimately show ?thesis by blast
qed

lemma normalizeSample_of_int:
  assumes "- 32768 \<le> n" and "n \<le> 32767"
  shows "normalizeSample (word_of_int n) = real_of_int n / 32768"
proof -
  have "sint (word_of_int n :: 16 word) = n"
    using assms by (simp add: sint_sbintrunc' signed_take_bit_int_eq_self)
  then show ?thesis unfolding normalizeSample_def by (simp del: of_int_sint)
qed

section \<open>The encoder is inverted by the decoder\<close>

lemma padding_simps [simp]:
  "padding (x # y # z # rest) = padding rest"
  "padding [x, y] = ''=''"
  "padding [x] = ''==''"
  "padding [] = []"
  by (simp_all add: padding_def numeral_2_eq_2)

lemma encode_bytes_split:
  "encode_bytes bs = map base64_char (encode_sextets bs) @ padding bs"
  by (induction bs rule: encode_bytes.induct) (simp_all add: Let_def)

lemma recompose2: "n div 64 * 64 + n mod 64 = (n::nat)"
  by simp

lemma recompose3: "(n div 4096 * 64 + n div 64 mod 64) * 64 + n mod 64 = (n::nat)"
proof -
  have "n div 4096 = n div 64 div 64"
    by (simp add: div_mult2_eq [symmetric])
  then show ?thesis by simp
qed

lemma recompose4:
  "((n div 262144 * 64 + n div 4096 mod 64) * 64 + n div 64 mod 64) * 64 + n mod 64 = (n::nat)"
proof -
  have a: "n div 4096 = n div 64 div 64"
    by (simp add: div_mult2_eq [symmetric])
  have b: "n div 262144 = n div 4096 div 64"
    by (simp add: div_mult2_eq [symmetric])
  have "n div 262144 * 64 + n div 4096 mod 64 = n div 4096"
    unfolding b by simp
  then show ?thesis using a by simp
qed

lemma bytes3:
  assumes "y < 256" "z < 256"
  shows "((x * 256 + y) * 256 + z) div 65536 = (x::nat)"
    and "((x * 256 + y) * 256 + z) div 256 mod 256 = y"
    and "((x * 256 + y) * 256 + z) mod 256 = z"
proof -
  have d: "((x * 256 + y) * 256 + z) div 256 = x * 256 + y"
    using assms by simp
  have e: "((x * 256 + y) * 256 + z) div 65536 = ((x * 256 + y) * 256 + z) div 256 div 256"
    by (simp add: div_mult2_eq [symmetric])
  show "((x * 256 + y) * 256 + z) div 65536 = x"
    unfolding e d using assms by simp
  show "((x * 256 + y) * 256 + z) div 256 mod 256 = y"
    unfolding d using assms by simp
  show "((x * 256 + y) * 256 + z) mod 256 = z"
    using assms by (simp only: mod_mult_self3 mod_less)
qed

lemma bytes2:
  assumes "y < 256"
  shows "((x * 256 + y) * 4) div 1024 = (x::nat)"
    and "((x * 256 + y) * 4) div 4 mod 256 = y"
proof -
  have "((x * 256 + y) * 4) div 1024 = ((x * 256 + y) * 4) div 4 div 256"
    by (simp only: div_mult2_eq [symmetric]) simp
  then show "((x * 256 + y) * 4) div 1024 = x"
    using assms by simp
  show "((x * 256 + y) * 4) div 4 mod 256 = y"
    using assms by simp
qed

lemma bytes1: "x * 16 div 16 = (x::nat)"
  by simp


lemma sextets_to_bytes_encode:
  "\<forall>b \<in> set bs. b < 256 \<Longrightarrow> sextets_to_bytes (encode_sextets bs) = bs"
proof (induction bs rule: encode_sextets.induct)
  case (1 x y z rest)
  then have yz: "y < 256" "z < 256" and IH: "sextets_to_bytes (encode_sextets rest) = rest"
    by simp_all
  show ?case
    by (simp only: encode_sextets.simps sextets_to_bytes.simps Let_def recompose4
        bytes3 [OF yz] IH)
next
  case (2 x y)
  then have y: "y < 256" by simp
  show ?case
    by (simp only: encode_sextets.simps sextets_to_bytes.simps Let_def recompose3 bytes2 [OF y])
next
  case (3 x)
  show ?case
    by (simp only: encode_sextets.simps sextets_to_bytes.simps Let_def recompose2 bytes1)
next
  case 4
  then show ?case by simp
qed

lemma of_char_base64_char:
  "(of_char (base64_char v) :: nat) =
     (if v < 26 then v + 65 else if v < 52 then v + 71 else if v < 62 then v - 4
      else if v = 62 then 43 else 47)"
  by (simp add: base64_char_def)

lemma base64_value_char: "v < 64 \<Longrightarrow> base64_value (base64_char v) = Some v"
  unfolding base64_value_def Let_def of_char_base64_char by auto

lemma base64_char_not_pad: "base64_char v \<noteq> CHR ''=''"
proof
  assume "base64_char v = CHR ''=''"
  then have "(of_char (base64_char v) :: nat) = of_char (CHR ''='')" by simp
  then show False unfolding of_char_base64_char by (simp split: if_splits)
qed

lemma of_char_base64_char_ge: "(43::nat) \<le> of_char (base64_char v)"
  unfolding of_char_base64_char by auto

lemma base64_char_not_space: "\<not> is_ascii_whitespace (base64_char v)"
proof
  assume "is_ascii_whitespace (base64_char v)"
  then have "(of_char (base64_char v) :: nat) \<in> {9, 10, 12, 13, 32}"
    unfolding is_ascii_whitespace_def by auto
  then show False using of_char_base64_char_ge [of v] by auto
qed

lemma pad_not_space: "\<not> is_ascii_whitespace (CHR ''='')"
  by (simp add: is_ascii_whitespace_def)

lemma sextets_bound:
  "\<forall>b \<in> set bs. b < 256 \<Longrightarrow> \<forall>v \<in> set (encode_sextets bs). v < 64"
proof (induction bs rule: encode_sextets.induct)
  case (1 x y z rest)
  then have "x < 256" "y < 256" "z < 256" by simp_all
  then have "(x * 256 + y) * 256 + z < 64 * 262144" by simp
  then have "((x * 256 + y) * 256 + z) div 262144 < 64"
    by (simp only: less_mult_imp_div_less)
  with 1 show ?case by (simp add: Let_def)
next
  case (2 x y)
  then have "x < 256" "y < 256" by simp_all
  then have "(x * 256 + y) * 4 < 64 * 4096" by simp
  then have "((x * 256 + y) * 4) div 4096 < 64"
    by (simp only: less_mult_imp_div_less)
  then show ?case by (simp add: Let_def)
next
  case (3 x)
  then have "x * 16 < 64 * 64" by simp
  then have "(x * 16) div 64 < 64"
    by (simp only: less_mult_imp_div_less)
  then show ?case by (simp add: Let_def)
next
  case 4
  then show ?case by simp
qed

lemma those_map_inverse:
  "\<forall>v \<in> set vs. f (g v) = Some v \<Longrightarrow> those (map f (map g vs)) = Some vs"
  by (induction vs) simp_all

lemma length_encode_sextets:
  "length (encode_sextets bs) mod 4 \<noteq> 1 \<and>
   (length (encode_sextets bs) + length (padding bs)) mod 4 = 0 \<and> length (padding bs) \<le> 2"
  by (induction bs rule: encode_sextets.induct) (simp_all add: Let_def)

lemma strip_padding_append:
  assumes "CHR ''='' \<notin> set xs" and "k \<le> 2" and "(length xs + k) mod 4 = 0"
  shows "strip_padding (xs @ replicate k (CHR ''='')) = xs"
proof -
  consider "k = 0" | "k = 1" | "k = 2" using assms(2) by linarith
  then show ?thesis
  proof cases
    case 1
    show ?thesis
    proof (cases xs rule: rev_cases)
      case Nil
      then show ?thesis using 1 by (simp add: strip_padding_def)
    next
      case (snoc ys y)
      then have "y \<noteq> CHR ''=''" using assms(1) by auto
      then show ?thesis using 1 snoc assms(3) by (simp add: strip_padding_def)
    qed
  next
    case 2
    have "xs \<noteq> []" using 2 assms(3) by auto
    then obtain ys y where xs: "xs = ys @ [y]" by (cases xs rule: rev_cases) auto
    then have "y \<noteq> CHR ''=''" using assms(1) by auto
    then show ?thesis using 2 xs assms(3) by (simp add: strip_padding_def)
  next
    case 3
    then show ?thesis using assms(3) by (simp add: strip_padding_def numeral_2_eq_2)
  qed
qed

lemma atob_encode_bytes:
  assumes "\<forall>b \<in> set bs. b < 256"
  shows "atob (encode_bytes bs) = Inr (map char_of bs)"
proof -
  let ?body = "map base64_char (encode_sextets bs)"
  have nospace: "filter (\<lambda>c. \<not> is_ascii_whitespace c) (encode_bytes bs) = encode_bytes bs"
    by (auto simp: encode_bytes_split padding_def base64_char_not_space pad_not_space)
  have strip: "strip_padding (encode_bytes bs) = ?body"
    unfolding encode_bytes_split padding_def
    using length_encode_sextets [of bs]
    by (intro strip_padding_append)
      (auto simp: base64_char_not_pad [THEN not_sym] padding_def)
  have vals: "those (map base64_value ?body) = Some (encode_sextets bs)"
    using sextets_bound [OF assms] by (intro those_map_inverse) (simp add: base64_value_char)
  show ?thesis
    unfolding atob_def Let_def nospace strip vals
    using length_encode_sextets [of bs]
    by (simp add: sextets_to_bytes_encode [OF assms])
qed

lemma Uint8Array_from_bytes: "Uint8Array_from (map char_of (map unat bytes)) = bytes"
proof -
  have "unat x mod 256 = unat x" for x :: "8 word"
    using unsigned_less [of x, where 'a = nat] by simp
  then show ?thesis
    by (simp add: Uint8Array_from_def comp_def)
qed

lemma word_cat_le_bytes: "word_cat (ucast (drop_bit 8 s) :: 8 word) (ucast s :: 8 word) = (s :: 16 word)"
  by (rule bit_word_eqI) (auto simp: bit_simps)

lemma int16_elements_pcm_bytes: "int16_elements (pcm_bytes ss) = ss"
  by (induction ss) (simp_all add: pcm_bytes_def int16_le_bytes_def word_cat_le_bytes)

lemma length_pcm_bytes: "length (pcm_bytes ss) = 2 * length ss"
  by (induction ss) (simp_all add: pcm_bytes_def int16_le_bytes_def)

lemma atob_base64_encode: "atob (base64_encode bytes) = Inr (map char_of (map unat bytes))"
proof -
  have "\<forall>b \<in> set (map unat bytes). b < 256"
    using unsigned_less [where 'b = 8 and 'a = nat] by auto
  then show ?thesis
    unfolding base64_encode_def by (rule atob_encode_bytes)
qed

lemma decodePcm_base64_encode:
  "decodePcm (base64_encode (pcm_bytes ss)) = Inr ss"
  unfolding decodePcm_def atob_base64_encode sum.case Uint8Array_from_bytes
  by (simp add: new_Int16Array_def length_pcm_bytes int16_elements_pcm_bytes)

section \<open>Runs of playVoice\<close>

lemma playVoice_guard:
  "\<not> isVoiceEnabled \<or> falsy base64 \<Longrightarrow> playVoice isVoiceEnabled base64 st = (Inr (), st)"
  by (simp add: playVoice_def)

lemma playVoice_play: "b \<noteq> [] \<Longrightarrow> playVoice True (Some b) st = play b st"
  by (simp add: playVoice_def)

lemma new_calls_append [simp]: "calls st' = calls st @ cs \<Longrightarrow> new_calls st st' = cs"
  by (simp add: new_calls_def)

lemma initial_state_simps [simp]:
  "calls initial_state = []"
  "audioContextRef initial_state = None"
  "context_calls initial_state = [NewAudioContext 24000]"
  "context_after initial_state = \<lparr>ctx_sampleRate = 24000\<rparr>"
  by (simp_all add: initial_state_def context_calls_def context_after_def)

lemma playVoice_decode_error:
  assumes "b \<noteq> []" and "decodePcm b = Inl e"
  shows "fst (playVoice True (Some b) st) = Inl e"
    and "calls (snd (playVoice True (Some b) st)) = calls st @ context_calls st @ [Atob b]"
    and "audioContextRef (snd (playVoice True (Some b) st)) = Some (context_after st)"
  using assms
  by (simp_all add: playVoice_play play_decode_error calls_ensureContext ref_ensureContext)

lemma playVoice_no_samples:
  assumes "b \<noteq> []" and "decodePcm b = Inr []"
  shows "fst (playVoice True (Some b) st) = Inl NotSupportedError"
    and "calls (snd (playVoice True (Some b) st)) =
           calls st @ context_calls st @ [Atob b, CreateBuffer 1 0 24000]"
    and "audioContextRef (snd (playVoice True (Some b) st)) = Some (context_after st)"
  using assms
  by (simp_all add: playVoice_play play_no_samples calls_ensureContext ref_ensureContext)

lemma playVoice_samples:
  assumes "b \<noteq> []" and "decodePcm b = Inr ss" and "ss \<noteq> []"
  shows "fst (playVoice True (Some b) st) = Inr ()"
    and "calls (snd (playVoice True (Some b) st)) = calls st @ context_calls st @
           [Atob b, CreateBuffer 1 (length ss) 24000, CreateBufferSource,
            SetSourceBuffer (filled_buffer ss), Connect, Start]"
    and "audioContextRef (snd (playVoice True (Some b) st)) = Some (context_after st)"
  using assms by (simp_all add: playVoice_play play_samples)

lemma context_calls_cases:
  "context_calls st = [] \<or> context_calls st = [NewAudioContext 24000]"
  by (simp add: context_calls_def split: option.split)

subsection \<open>Concrete payloads\<close>

lemma atob_AAAA: "atob ''AAAA'' = Inr (map char_of [0, 0, 0 :: nat])"
  by (simp add: atob_def strip_padding_def is_ascii_whitespace_def base64_value_def)

lemma bytes_AAAA: "map_sum id Uint8Array_from (atob ''AAAA'') = Inr [0, 0, 0]"
  by (simp add: atob_AAAA Uint8Array_from_def)

lemma decodePcm_AAAA: "decodePcm ''AAAA'' = Inl RangeError"
  using atob_AAAA by (rule decodePcm_odd) simp

lemma encode_vector:
  "base64_encode (pcm_bytes [0, 16384, - 16384, 32767, - 32768]) = ''AAAAQADA/38AgA==''"
  by (simp add: base64_encode_def pcm_bytes_def int16_le_bytes_def base64_char_def
      char_of_eq_iff)

lemma decodePcm_vector:
  "decodePcm ''AAAAQADA/38AgA=='' = Inr [0, 16384, - 16384, 32767, - 32768]"
  using decodePcm_base64_encode [of "[0, 16384, - 16384, 32767, - 32768]"]
  by (simp only: encode_vector)

section \<open>C1: a payload with an odd number of bytes\<close>

text \<open>
  C1 fails on the code as it is stated: the three bytes of \<open>AAAA\<close> do not give one sample. The
  constructor of \<open>Int16Array\<close> refuses a buffer of odd length, and the call rejects with
  a RangeError after it has made the context and called \<open>atob\<close>.
\<close>

theorem C1_three_bytes_raise:
  "map_sum id Uint8Array_from (atob ''AAAA'') = Inr [0, 0, 0] \<and>
   decodePcm ''AAAA'' = Inl RangeError \<and>
   fst (playVoice True (Some ''AAAA'') initial_state) = Inl RangeError \<and>
   calls (snd (playVoice True (Some ''AAAA'') initial_state)) =
     [NewAudioContext 24000, Atob ''AAAA'']"
  by (simp add: bytes_AAAA decodePcm_AAAA playVoice_decode_error)

text \<open>
  C1, as amended: for every payload that \<open>atob\<close> decodes to an odd number of bytes, the
  decode step raises a RangeError; no sample is produced, and the call made with voice
  enabled rejects with that error, its only host calls being the creation of the context
  (when there is none yet) and \<open>atob\<close>.
\<close>

theorem C1_odd_byte_count_raises:
  assumes "atob p = Inr binary" and "odd (length binary)"
  shows "decodePcm p = Inl RangeError \<and>
         fst (playVoice True (Some p) st) = Inl RangeError \<and>
         new_calls st (snd (playVoice True (Some p) st)) = context_calls st @ [Atob p]"
proof -
  have d: "decodePcm p = Inl RangeError"
    using assms by (rule decodePcm_odd)
  have p: "p \<noteq> []"
    using assms atob_Nil by auto
  show ?thesis
    by (simp add: d playVoice_decode_error [OF p d])
qed

theorem C1_odd_byte_count_raises_witness:
  "atob ''AAAA'' = Inr (map char_of [0, 0, 0 :: nat]) \<and>
   odd (length (map char_of [0, 0, 0 :: nat])) \<and>
   decodePcm ''AAAA'' = Inl RangeError \<and>
   new_calls initial_state (snd (playVoice True (Some ''AAAA'') initial_state)) =
     [NewAudioContext 24000, Atob ''AAAA'']"
proof -
  have h1: "atob ''AAAA'' = Inr (map char_of [0, 0, 0 :: nat])" by (rule atob_AAAA)
  have h2: "odd (length (map char_of [0, 0, 0 :: nat]))" by simp
  show ?thesis
    using h1 C1_odd_byte_count_raises [OF h1 h2, of initial_state] by simp
qed

section \<open>C2: normalisation\<close>

text \<open>
  C2: the normalised buffer has the length and the order of the sample buffer, each of
  its elements is the sample divided by 32768 and lies in the half-open range from \<open>-1\<close>
  to \<open>1\<close>; every integer \<open>n\<close> of the signed 16-bit range is mapped to \<open>n / 32768\<close>, the
  least one to \<open>-1\<close> and the greatest one to \<open>32767 / 32768\<close>.
\<close>

theorem C2_normalization:
  "length (normalizeSamples d) = length d \<and>
   (\<forall>i < length d.
      normalizeSamples d ! i = real_of_int (sint (d ! i)) / 32768 \<and>
      - 1 \<le> normalizeSamples d ! i \<and> normalizeSamples d ! i < 1) \<and>
   (\<forall>n. - 32768 \<le> n \<and> n \<le> 32767 \<longrightarrow>
      normalizeSample (word_of_int n) = real_of_int n / 32768) \<and>
   normalizeSample (word_of_int (- 32768)) = - 1 \<and>
   normalizeSample (word_of_int 32767) = 32767 / 32768"
proof (intro conjI allI impI)
  show "length (normalizeSamples d) = length d"
    by (simp add: normalizeSamples_map)
next
  fix i assume "i < length d"
  then have nth: "normalizeSamples d ! i = normalizeSample (d ! i)"
    by (simp add: normalizeSamples_map)
  show "normalizeSamples d ! i = real_of_int (sint (d ! i)) / 32768"
    unfolding nth normalizeSample_def ..
  show "- 1 \<le> normalizeSamples d ! i" and "normalizeSamples d ! i < 1"
    unfolding nth using normalizeSample_range [of "d ! i"] by simp_all
next
  fix n :: int assume "- 32768 \<le> n \<and> n \<le> 32767"
  then show "normalizeSample (word_of_int n) = real_of_int n / 32768"
    by (simp add: normalizeSample_of_int)
next
  show "normalizeSample (word_of_int (- 32768)) = - 1"
    by (simp add: normalizeSample_def)
  show "normalizeSample (word_of_int 32767) = 32767 / 32768"
    by (simp add: normalizeSample_def)
qed

theorem C2_normalization_witness:
  "normalizeSamples [- 32768, 32767, 16384] = [- 1, 32767 / 32768, 1 / 2] \<and>
   length (normalizeSamples [- 32768, 32767, 16384]) = 3 \<and>
   normalizeSample (word_of_int (- 32768)) = - 1 \<and>
   normalizeSample (word_of_int 32767) = 32767 / 32768"
proof -
  have "normalizeSamples [- 32768, 32767, 16384] = [- 1, 32767 / 32768, 1 / 2]"
    by (simp add: normalizeSamples_map normalizeSample_def)
  then show ?thesis
    using C2_normalization [of "[- 32768, 32767, 16384]"] by simp
qed

section \<open>C3: text that the decoder rejects\<close>

lemma those_map_None: "x \<in> set xs \<Longrightarrow> f x = None \<Longrightarrow> those (map f xs) = None"
  by (induction xs) (auto split: option.split)

lemma those_map_Some: "\<forall>x \<in> set xs. f x \<noteq> None \<Longrightarrow> \<exists>ys. those (map f xs) = Some ys"
  by (induction xs) (auto split: option.split)

lemma in_set_strip_padding:
  assumes "c \<in> set d" and "c \<noteq> CHR ''=''"
  shows "c \<in> set (strip_padding d)"
proof -
  have keep: "c \<in> set (take k d)" if "set (drop k d) \<subseteq> {CHR ''=''}" for k
  proof -
    have "set d = set (take k d) \<union> set (drop k d)"
      by (metis append_take_drop_id set_append)
    with assms that show ?thesis by auto
  qed
  show ?thesis
    unfolding strip_padding_def using assms(1) by (auto intro!: keep)
qed

lemma atob_foreign_char:
  assumes "c \<in> set p" and "\<not> is_base64_char c" and "\<not> is_ascii_whitespace c"
    and "c \<noteq> CHR ''=''"
  shows "atob p = Inl InvalidCharacterError"
proof -
  let ?d = "strip_padding (filter (\<lambda>c. \<not> is_ascii_whitespace c) p)"
  have "c \<in> set ?d"
    using assms by (intro in_set_strip_padding) simp_all
  moreover have "base64_value c = None"
    using assms(2) by (simp add: is_base64_char_def)
  ultimately have "those (map base64_value ?d) = None"
    by (rule those_map_None)
  then show ?thesis
    by (simp add: atob_def Let_def)
qed

subsection \<open>Standard base64 text is accepted\<close>

lemma base64_char_is_no_space: "is_base64_char c \<Longrightarrow> \<not> is_ascii_whitespace c"
  by (auto simp: is_base64_char_def base64_value_def is_ascii_whitespace_def)

lemma pad_is_no_base64_char: "\<not> is_base64_char (CHR ''='')"
  by (simp add: is_base64_char_def base64_value_def)

lemma standard_base64_length: "standard_base64 s \<Longrightarrow> length s mod 4 = 0"
proof (induction s rule: standard_base64.induct)
  case (3 a b c d v va)
  then have "length (v # va) mod 4 = 0"
    by simp
  moreover have "length (a # b # c # d # v # va) = 4 + length (v # va)"
    by simp
  ultimately show ?case
    by (simp only: mod_add_self1)
qed simp_all

lemma standard_base64_shape:
  "standard_base64 s \<Longrightarrow>
   \<exists>body k. s = body @ replicate k (CHR ''='') \<and> k \<le> 2 \<and> (\<forall>c \<in> set body. is_base64_char c)"
proof (induction s rule: standard_base64.induct)
  case 1
  then show ?case by simp
next
  case (2 a b c d)
  show ?case
  proof (cases "c = CHR ''=''")
    case True
    with 2 have "[a, b, c, d] = [a, b] @ replicate 2 (CHR ''='')" and "is_base64_char a"
      and "is_base64_char b"
      by (simp_all add: numeral_2_eq_2)
    then show ?thesis
      by (intro exI [of _ "[a, b]"] exI [of _ 2]) simp
  next
    case c: False
    show ?thesis
    proof (cases "d = CHR ''=''")
      case True
      with 2 c have "[a, b, c, d] = [a, b, c] @ replicate 1 (CHR ''='')" and "is_base64_char a"
        and "is_base64_char b" and "is_base64_char c"
        by simp_all
      then show ?thesis
        by (intro exI [of _ "[a, b, c]"] exI [of _ 1]) simp
    next
      case False
      with 2 c have "[a, b, c, d] = [a, b, c, d] @ replicate 0 (CHR ''='')"
        and "is_base64_char a" and "is_base64_char b" and "is_base64_char c"
        and "is_base64_char d"
        by simp_all
      then show ?thesis
        by (intro exI [of _ "[a, b, c, d]"] exI [of _ 0]) simp
    qed
  qed
next
  case (3 a b c d v va)
  from "3.prems" have "standard_base64 (v # va)"
    by simp
  from "3.IH" [OF this] obtain body
    where "\<exists>k. v # va = body @ replicate k (CHR ''='') \<and> k \<le> 2 \<and>
             (\<forall>x \<in> set body. is_base64_char x)" ..
  then obtain k
    where r: "v # va = body @ replicate k (CHR ''='') \<and> k \<le> 2 \<and>
             (\<forall>x \<in> set body. is_base64_char x)" ..
  from "3.prems" have h: "is_base64_char a" "is_base64_char b" "is_base64_char c"
    "is_base64_char d"
    by simp_all
  show ?case
    using r h by (intro exI [of _ "a # b # c # d # body"] exI [of _ k]) simp
qed simp_all

lemma standard_base64_accepted:
  assumes "standard_base64 s"
  shows "\<exists>binary. atob s = Inr binary"
proof -
  from standard_base64_shape [OF assms] obtain body
    where "\<exists>k. s = body @ replicate k (CHR ''='') \<and> k \<le> 2 \<and>
             (\<forall>c \<in> set body. is_base64_char c)" ..
  then obtain k
    where r: "s = body @ replicate k (CHR ''='') \<and> k \<le> 2 \<and>
             (\<forall>c \<in> set body. is_base64_char c)" ..
  from r have s: "s = body @ replicate k (CHR ''='')" and k: "k \<le> 2"
    and body: "\<forall>c \<in> set body. is_base64_char c"
    by simp_all
  have len: "(length body + k) mod 4 = 0"
    using standard_base64_length [OF assms] unfolding s by simp
  have nospace: "filter (\<lambda>c. \<not> is_ascii_whitespace c) s = s"
    unfolding s using body by (auto simp: base64_char_is_no_space pad_not_space)
  have nopad: "CHR ''='' \<notin> set body"
    using body pad_is_no_base64_char by blast
  have strip: "strip_padding s = body"
    unfolding s using nopad k len by (rule strip_padding_append)
  have len1: "length body mod 4 \<noteq> 1"
  proof
    assume "length body mod 4 = 1"
    then have "(length body + k) mod 4 = (1 + k) mod 4"
      by (metis mod_add_left_eq)
    moreover have "(1 + k) mod 4 = 1 + k"
      using k by simp
    ultimately show False
      using len by simp
  qed
  obtain vs where "those (map base64_value body) = Some vs"
    using those_map_Some [of body base64_value] body by (auto simp: is_base64_char_def)
  then show ?thesis
    using len1 by (simp add: atob_def Let_def nospace strip)
qed

subsection \<open>The claim\<close>

text \<open>
  C3 fails on the code as it is stated, for text that is not standard base64 only
  because its padding is missing: \<open>atob\<close> is forgiving, decodes \<open>QUE\<close> to two bytes, and the call plays
  them.
\<close>

theorem C3_unpadded_text_is_played:
  "\<not> standard_base64 ''QUE'' \<and>
   map_sum id Uint8Array_from (atob ''QUE'') = Inr [65, 65] \<and>
   fst (playVoice True (Some ''QUE'') initial_state) = Inr () \<and>
   Start \<in> set (calls (snd (playVoice True (Some ''QUE'') initial_state)))"
proof -
  have a: "atob ''QUE'' = Inr (map char_of [65, 65 :: nat])"
    by (simp add: atob_def strip_padding_def is_ascii_whitespace_def base64_value_def)
  have d: "decodePcm ''QUE'' = Inr [word_cat (65 :: 8 word) (65 :: 8 word)]"
    by (simp add: decodePcm_def a Uint8Array_from_def new_Int16Array_def)
  have "\<not> standard_base64 ''QUE''"
    by simp
  then show ?thesis
    by (simp add: a Uint8Array_from_def playVoice_samples [OF _ d])
qed

text \<open>
  C3, as amended: for every payload that the forgiving decoder of \<open>atob\<close> rejects, and it
  rejects every text with a character that is neither of the base64 alphabet nor ASCII
  whitespace nor \<open>=\<close>, the call made with voice enabled rejects with the
  InvalidCharacterError of \<open>atob\<close>; its only host calls are the creation of the context
  (when there is none yet) and \<open>atob\<close>, so nothing is played. Every such payload fails to
  be standard base64.
\<close>

theorem C3_rejected_payload_raises:
  assumes "atob p = Inl e \<or>
           (\<exists>c \<in> set p. \<not> is_base64_char c \<and> \<not> is_ascii_whitespace c \<and> c \<noteq> CHR ''='')"
  shows "fst (playVoice True (Some p) st) = Inl InvalidCharacterError \<and>
         new_calls st (snd (playVoice True (Some p) st)) = context_calls st @ [Atob p] \<and>
         Start \<notin> set (new_calls st (snd (playVoice True (Some p) st))) \<and>
         \<not> standard_base64 p"
proof -
  from assms obtain e' where a: "atob p = Inl e'"
    using atob_foreign_char by blast
  then have d: "decodePcm p = Inl InvalidCharacterError"
    by (rule decodePcm_atob_error)
  have p: "p \<noteq> []"
    using a atob_Nil by auto
  have "\<not> standard_base64 p"
    using a standard_base64_accepted [of p] by auto
  moreover have "Start \<notin> set (context_calls st @ [Atob p])"
    using context_calls_cases [of st] by auto
  ultimately show ?thesis
    by (simp add: playVoice_decode_error [OF p d])
qed

theorem C3_rejected_payload_raises_witness:
  "(\<exists>c \<in> set ''AA!A''. \<not> is_base64_char c \<and> \<not> is_ascii_whitespace c \<and> c \<noteq> CHR ''='') \<and>
   fst (playVoice True (Some ''AA!A'') initial_state) = Inl InvalidCharacterError \<and>
   new_calls initial_state (snd (playVoice True (Some ''AA!A'') initial_state)) =
     [NewAudioContext 24000, Atob ''AA!A'']"
proof -
  have h: "\<exists>c \<in> set ''AA!A''. \<not> is_base64_char c \<and> \<not> is_ascii_whitespace c \<and> c \<noteq> CHR ''=''"
    by (simp add: is_base64_char_def base64_value_def is_ascii_whitespace_def)
  then have "atob ''AA!A'' = Inl InvalidCharacterError \<or>
      (\<exists>c \<in> set ''AA!A''. \<not> is_base64_char c \<and> \<not> is_ascii_whitespace c \<and> c \<noteq> CHR ''='')"
    by (rule disjI2)
  from C3_rejected_payload_raises [OF this, of initial_state] h show ?thesis
    by simp
qed

section \<open>C4: an empty or absent payload\<close>

text \<open>
  C4: with an absent payload and with the empty string the call resolves and leaves the
  state as it was: it logs no host call, so it neither decodes nor creates a context nor
  starts a source.
\<close>

theorem C4_empty_or_absent_is_noop:
  "playVoice isVoiceEnabled None st = (Inr (), st) \<and>
   playVoice isVoiceEnabled (Some []) st = (Inr (), st)"
  by (simp add: playVoice_guard)

theorem C4_empty_or_absent_is_noop_witness:
  "playVoice True None initial_state = (Inr (), initial_state) \<and>
   playVoice True (Some []) initial_state = (Inr (), initial_state) \<and>
   calls initial_state = []"
  using C4_empty_or_absent_is_noop [of True initial_state] by simp

section \<open>C5: the sample count of an even payload\<close>

lemma atob_bytes_cases:
  assumes "p = base64_encode bytes \<or> map_sum id Uint8Array_from (atob p) = Inr bytes"
  obtains binary where "atob p = Inr binary" and "Uint8Array_from binary = bytes"
proof -
  from assms show ?thesis
  proof
    assume "p = base64_encode bytes"
    then have "atob p = Inr (map char_of (map unat bytes))"
      by (simp only: atob_base64_encode)
    then show ?thesis
      using Uint8Array_from_bytes [of bytes] that by blast
  next
    assume "map_sum id Uint8Array_from (atob p) = Inr bytes"
    then show ?thesis
      using that by (cases "atob p") simp_all
  qed
qed

text \<open>
  C5: a payload that encodes an even number \<open>n\<close> of bytes, be it their standard encoding
  or any other text that \<open>atob\<close> decodes to them, is decoded to \<open>n / 2\<close> samples.
\<close>

theorem C5_even_payload_sample_count:
  assumes "even (length bytes)"
    and "p = base64_encode bytes \<or> map_sum id Uint8Array_from (atob p) = Inr bytes"
  shows "decodePcm p = Inr (int16_elements bytes) \<and>
         length (int16_elements bytes) = length bytes div 2"
proof -
  from assms(2) obtain binary
    where a: "atob p = Inr binary" and b: "Uint8Array_from binary = bytes"
    by (rule atob_bytes_cases)
  have "length binary = length bytes"
    using b length_Uint8Array_from [of binary] by simp
  then have "even (length binary)"
    using assms(1) by simp
  with a have "decodePcm p = Inr (int16_elements (Uint8Array_from binary))"
    by (rule decodePcm_even)
  then show ?thesis
    by (simp add: b length_int16_elements)
qed

theorem C5_even_payload_sample_count_witness:
  "even (length (pcm_bytes [0, 16384, - 16384, 32767, - 32768])) \<and>
   length (pcm_bytes [0, 16384, - 16384, 32767, - 32768]) = 10 \<and>
   base64_encode (pcm_bytes [0, 16384, - 16384, 32767, - 32768]) = ''AAAAQADA/38AgA=='' \<and>
   (\<exists>samples. decodePcm ''AAAAQADA/38AgA=='' = Inr samples \<and> length samples = 5)"
proof -
  let ?bytes = "pcm_bytes [0, 16384, - 16384, 32767, - 32768]"
  have h1: "even (length ?bytes)"
    by (simp add: length_pcm_bytes)
  have h2: "''AAAAQADA/38AgA=='' = base64_encode ?bytes \<or>
            map_sum id Uint8Array_from (atob ''AAAAQADA/38AgA=='') = Inr ?bytes"
    by (rule disjI1) (simp only: encode_vector)
  show ?thesis
    using C5_even_payload_sample_count [OF h1 h2]
    by (simp add: length_pcm_bytes encode_vector)
qed

section \<open>C6: the playback buffer\<close>

lemma int16_elements_nth:
  "i < length bs div 2 \<Longrightarrow> int16_elements bs ! i = word_cat (bs ! (2 * i + 1)) (bs ! (2 * i))"
proof (induction bs arbitrary: i rule: int16_elements.induct)
  case (1 lo hi rest)
  then show ?case by (cases i) simp_all
qed simp_all

lemma decodePcm_nth:
  assumes "decodePcm p = Inr ss"
    and "map_sum id Uint8Array_from (atob p) = Inr bytes"
    and "i < length ss"
  shows "ss ! i = word_cat (bytes ! (2 * i + 1)) (bytes ! (2 * i))"
proof -
  from assms(2) obtain binary
    where a: "atob p = Inr binary" and b: "Uint8Array_from binary = bytes"
    by (cases "atob p") simp_all
  have ss: "ss = int16_elements bytes"
    using assms(1) a b by (simp add: decodePcm_def new_Int16Array_def split: if_splits)
  show ?thesis
    using assms(3) unfolding ss by (simp add: int16_elements_nth length_int16_elements)
qed

lemma new_calls_cases:
  assumes "decodePcm p = Inr ss" and "p \<noteq> []"
  shows "new_calls st (snd (playVoice True (Some p) st)) =
           context_calls st @
           (if ss = [] then [Atob p, CreateBuffer 1 0 24000]
            else [Atob p, CreateBuffer 1 (length ss) 24000, CreateBufferSource,
                  SetSourceBuffer (filled_buffer ss), Connect, Start])"
proof (cases "ss = []")
  case True
  then show ?thesis
    using assms by (simp add: playVoice_no_samples)
next
  case False
  then show ?thesis
    using assms by (simp add: playVoice_samples)
qed

lemma decodePcm_space: "decodePcm '' '' = Inr []"
  by (simp add: decodePcm_def atob_def strip_padding_def is_ascii_whitespace_def
      new_Int16Array_def Uint8Array_from_def)

text \<open>
  C6 fails on the code as it is stated, for a payload that is decoded to no sample at
  all: \<open>atob\<close> drops the space of the payload \<open>" "\<close> and returns no byte, the decode step
  succeeds with zero samples, \<open>createBuffer\<close> refuses the length 0, and the call rejects
  with a NotSupportedError before any buffer exists.
\<close>

theorem C6_no_sample_no_buffer:
  "decodePcm '' '' = Inr [] \<and>
   fst (playVoice True (Some '' '') initial_state) = Inl NotSupportedError \<and>
   calls (snd (playVoice True (Some '' '') initial_state)) =
     [NewAudioContext 24000, Atob '' '', CreateBuffer 1 0 24000]"
  by (simp add: decodePcm_space playVoice_no_samples)

text \<open>
  C6, as amended: when the payload has been decoded to the samples \<open>ss\<close> and \<open>ss\<close> has at
  least one sample, the call makes exactly one buffer, of one channel, of the length of
  \<open>ss\<close> and of the rate 24000, hands it to its source with the normalised samples in its
  one channel, the \<open>i\<close>-th of them made of the bytes \<open>2 i\<close> and \<open>2 i + 1\<close> of the payload, and
  starts it. When \<open>ss\<close> has no sample, the call requests a buffer of length 0, rejects
  with the NotSupportedError of \<open>createBuffer\<close> and makes no buffer. In both cases every
  buffer the call requests has one channel, the length of \<open>ss\<close> and the rate 24000, and
  every buffer it hands to a source has these parameters and these samples.
\<close>

theorem C6_playback_buffer:
  assumes "decodePcm p = Inr ss" and "p \<noteq> []"
  shows "(\<forall>b. SetSourceBuffer b \<in> set (new_calls st (snd (playVoice True (Some p) st))) \<longrightarrow>
            numberOfChannels b = 1 \<and> buffer_length b = length ss \<and> sampleRate b = 24000 \<and>
            channels b = [map normalizeSample ss]) \<and>
         (\<forall>n l r. CreateBuffer n l r \<in> set (new_calls st (snd (playVoice True (Some p) st))) \<longrightarrow>
            n = 1 \<and> l = length ss \<and> r = 24000) \<and>
         (ss \<noteq> [] \<longrightarrow>
            fst (playVoice True (Some p) st) = Inr () \<and>
            new_calls st (snd (playVoice True (Some p) st)) =
              context_calls st @
              [Atob p, CreateBuffer 1 (length ss) 24000, CreateBufferSource,
               SetSourceBuffer (filled_buffer ss), Connect, Start]) \<and>
         (\<forall>bytes i. map_sum id Uint8Array_from (atob p) = Inr bytes \<and> i < length ss \<longrightarrow>
            map normalizeSample ss ! i =
              real_of_int (sint (word_cat (bytes ! (2 * i + 1)) (bytes ! (2 * i)) :: 16 word)) / 32768) \<and>
         (ss = [] \<longrightarrow>
            fst (playVoice True (Some p) st) = Inl NotSupportedError \<and>
            new_calls st (snd (playVoice True (Some p) st)) =
              context_calls st @ [Atob p, CreateBuffer 1 0 24000])"
proof (intro conjI allI impI)
  note nc = new_calls_cases [OF assms, of st]
  fix b assume "SetSourceBuffer b \<in> set (new_calls st (snd (playVoice True (Some p) st)))"
  then have "b = filled_buffer ss"
    unfolding nc using context_calls_cases [of st] by (auto split: if_splits)
  then show "numberOfChannels b = 1" "buffer_length b = length ss" "sampleRate b = 24000"
    "channels b = [map normalizeSample ss]"
    by (simp_all add: filled_buffer_def)
next
  note nc = new_calls_cases [OF assms, of st]
  fix n l r assume "CreateBuffer n l r \<in> set (new_calls st (snd (playVoice True (Some p) st)))"
  then have "n = 1 \<and> l = length ss \<and> r = 24000"
    unfolding nc using context_calls_cases [of st] by (auto split: if_splits)
  then show "n = 1" "l = length ss" "r = 24000" by simp_all
next
  assume "ss \<noteq> []"
  then show "fst (playVoice True (Some p) st) = Inr ()"
    using assms by (simp add: playVoice_samples)
  show "new_calls st (snd (playVoice True (Some p) st)) =
          context_calls st @
          [Atob p, CreateBuffer 1 (length ss) 24000, CreateBufferSource,
           SetSourceBuffer (filled_buffer ss), Connect, Start]"
    using \<open>ss \<noteq> []\<close> new_calls_cases [OF assms, of st] by simp
next
  fix bytes i
  assume h: "map_sum id Uint8Array_from (atob p) = Inr bytes \<and> i < length ss"
  then have m: "map_sum id Uint8Array_from (atob p) = Inr bytes" and i: "i < length ss"
    by simp_all
  have "ss ! i = word_cat (bytes ! (2 * i + 1)) (bytes ! (2 * i))"
    using assms(1) m i by (rule decodePcm_nth)
  then show "map normalizeSample ss ! i =
      real_of_int (sint (word_cat (bytes ! (2 * i + 1)) (bytes ! (2 * i)) :: 16 word)) / 32768"
    using i by (simp add: normalizeSample_def del: of_int_sint)
next
  assume "ss = []"
  then show "fst (playVoice True (Some p) st) = Inl NotSupportedError"
    using assms by (simp add: playVoice_no_samples)
  show "new_calls st (snd (playVoice True (Some p) st)) =
          context_calls st @ [Atob p, CreateBuffer 1 0 24000]"
    using \<open>ss = []\<close> new_calls_cases [OF assms, of st] by simp
qed

theorem C6_playback_buffer_witness:
  "decodePcm ''AAAAQADA/38AgA=='' = Inr [0, 16384, - 16384, 32767, - 32768] \<and>
   fst (playVoice True (Some ''AAAAQADA/38AgA=='') initial_state) = Inr () \<and>
   new_calls initial_state (snd (playVoice True (Some ''AAAAQADA/38AgA=='') initial_state)) =
     [NewAudioContext 24000, Atob ''AAAAQADA/38AgA=='', CreateBuffer 1 5 24000,
      CreateBufferSource,
      SetSourceBuffer
        \<lparr>numberOfChannels = 1, buffer_length = 5, sampleRate = 24000,
         channels = [[0, 1 / 2, - 1 / 2, 32767 / 32768, - 1]]\<rparr>,
      Connect, Start]"
proof -
  have h1: "decodePcm ''AAAAQADA/38AgA=='' = Inr [0, 16384, - 16384, 32767, - 32768]"
    by (rule decodePcm_vector)
  have h2: "''AAAAQADA/38AgA=='' \<noteq> []" by simp
  note run = C6_playback_buffer [OF h1 h2, of initial_state,
      THEN conjunct2, THEN conjunct2, THEN conjunct1]
  have "fst (playVoice True (Some ''AAAAQADA/38AgA=='') initial_state) = Inr () \<and>
        new_calls initial_state (snd (playVoice True (Some ''AAAAQADA/38AgA=='') initial_state)) =
          context_calls initial_state @
          [Atob ''AAAAQADA/38AgA=='', CreateBuffer 1 5 24000, CreateBufferSource,
           SetSourceBuffer (filled_buffer [0, 16384, - 16384, 32767, - 32768]), Connect, Start]"
    using run by simp
  then show ?thesis
    using h1 by (simp add: filled_buffer_def normalizeSample_def)
qed

section \<open>C7: the round trip of the test vector\<close>

text \<open>
  C7: the little-endian bytes of the samples 0, 16384, -16384, 32767, -32768 have the
  base64 text \<open>AAAAQADA/38AgA==\<close>; decoding and normalising that text gives exactly
  0, 1/2, -1/2, 32767/32768, -1, and these are the samples of the buffer that the call
  hands to its source node.
\<close>

theorem C7_round_trip_vector:
  "base64_encode (pcm_bytes [0, 16384, - 16384, 32767, - 32768]) = ''AAAAQADA/38AgA=='' \<and>
   map sint [0, 16384, - 16384, 32767, - 32768 :: 16 word] =
     [0, 16384, - 16384, 32767, - 32768] \<and>
   map_sum id normalizeSamples (decodePcm ''AAAAQADA/38AgA=='') =
     Inr [0, 1 / 2, - 1 / 2, 32767 / 32768, - 1] \<and>
   SetSourceBuffer
     \<lparr>numberOfChannels = 1, buffer_length = 5, sampleRate = 24000,
      channels = [[0, 1 / 2, - 1 / 2, 32767 / 32768, - 1]]\<rparr>
   \<in> set (calls (snd (playVoice True (Some ''AAAAQADA/38AgA=='') initial_state)))"
  by (simp add: encode_vector decodePcm_vector normalizeSamples_map normalizeSample_def
      playVoice_samples filled_buffer_def)

theorem C7_round_trip_vector_witness:
  "map_sum id normalizeSamples (decodePcm (base64_encode (pcm_bytes [0, 16384, - 16384, 32767, - 32768]))) =
     Inr [0, 1 / 2, - 1 / 2, 32767 / 32768, - 1]"
  using C7_round_trip_vector by simp

section \<open>C8: the playback context of a session\<close>

lemma play_summary:
  "fst (play b st) = play_result b"
  "calls (snd (play b st)) = calls st @ context_calls st @ decode_calls b"
  "audioContextRef (snd (play b st)) = Some (context_after st)"
proof -
  show "fst (play b st) = play_result b"
  proof (cases "decodePcm b")
    case (Inl e)
    then show ?thesis by (simp add: play_decode_error play_result_def)
  next
    case (Inr ss)
    then show ?thesis
      by (cases "ss = []") (simp_all add: play_no_samples play_samples play_result_def)
  qed
  show "calls (snd (play b st)) = calls st @ context_calls st @ decode_calls b"
  proof (cases "decodePcm b")
    case (Inl e)
    then show ?thesis by (simp add: play_decode_error decode_calls_def calls_ensureContext)
  next
    case (Inr ss)
    then show ?thesis
      by (cases "ss = []")
        (simp_all add: play_no_samples play_samples decode_calls_def calls_ensureContext)
  qed
  show "audioContextRef (snd (play b st)) = Some (context_after st)"
  proof (cases "decodePcm b")
    case (Inl e)
    then show ?thesis by (simp add: play_decode_error ref_ensureContext)
  next
    case (Inr ss)
    then show ?thesis
      by (cases "ss = []") (simp_all add: play_no_samples play_samples ref_ensureContext)
  qed
qed

lemma passes_guard_cases:
  assumes "passes_guard (en, p)"
  obtains b where "p = Some b" and "b \<noteq> []" and "en"
  using assms by (cases p) (auto simp: passes_guard_def)

lemma playVoice_skipped: "\<not> passes_guard (en, p) \<Longrightarrow> playVoice en p st = (Inr (), st)"
  by (simp add: passes_guard_def playVoice_guard)

lemma playVoice_passed:
  assumes "passes_guard (en, p)"
  shows "audioContextRef (snd (playVoice en p st)) = Some (context_after st)"
    and "\<exists>b. p = Some b \<and> fst (playVoice en p st) = play_result b \<and>
           new_calls st (snd (playVoice en p st)) = context_calls st @ decode_calls b"
proof -
  from assms obtain b where b: "p = Some b" "b \<noteq> []" "en"
    by (rule passes_guard_cases)
  then have "playVoice en p st = play b st"
    by (simp add: playVoice_play)
  then show "audioContextRef (snd (playVoice en p st)) = Some (context_after st)"
    and "\<exists>b. p = Some b \<and> fst (playVoice en p st) = play_result b \<and>
           new_calls st (snd (playVoice en p st)) = context_calls st @ decode_calls b"
    using b by (simp_all add: play_summary)
qed

lemma no_context_in_decode_calls: "filter is_NewAudioContext (decode_calls b) = []"
  by (simp add: decode_calls_def split: sum.split)

lemma context_of_ref:
  "audioContextRef st = None \<Longrightarrow> context_calls st = [NewAudioContext 24000]"
  "audioContextRef st = None \<Longrightarrow> context_after st = \<lparr>ctx_sampleRate = 24000\<rparr>"
  "audioContextRef st = Some ctx \<Longrightarrow> context_calls st = []"
  "audioContextRef st = Some ctx \<Longrightarrow> context_after st = ctx"
  by (simp_all add: context_calls_def context_after_def)

lemma new_calls_self [simp]: "new_calls st st = []"
  by (simp add: new_calls_def)

lemma contexts_created_playVoice:
  "contexts_created (snd (playVoice en p st)) =
     contexts_created st + (if passes_guard (en, p) \<and> audioContextRef st = None then 1 else 0)"
proof (cases "passes_guard (en, p)")
  case False
  then show ?thesis by (simp add: playVoice_skipped)
next
  case True
  then obtain b where b: "p = Some b" "b \<noteq> []" "en"
    by (rule passes_guard_cases)
  then have "calls (snd (playVoice en p st)) = calls st @ context_calls st @ decode_calls b"
    by (simp add: playVoice_play play_summary)
  then show ?thesis
    using True
    by (cases "audioContextRef st")
      (simp_all add: contexts_created_def no_context_in_decode_calls context_of_ref)
qed

lemma ref_playVoice:
  "audioContextRef (snd (playVoice en p st)) =
     (if passes_guard (en, p) then Some (context_after st) else audioContextRef st)"
  by (simp add: playVoice_skipped playVoice_passed)

lemma context_after_playVoice: "context_after (snd (playVoice en p st)) = context_after st"
  by (simp add: context_after_def ref_playVoice split: option.split)

lemma session_ref:
  "audioContextRef (session cs st) =
     (if \<exists>c \<in> set cs. passes_guard c then Some (context_after st) else audioContextRef st)"
proof (induction cs arbitrary: st)
  case Nil
  then show ?case by simp
next
  case (Cons c cs)
  obtain en p where c: "c = (en, p)" by (cases c)
  show ?case
    unfolding c using Cons.IH [of "snd (playVoice en p st)"]
    by (simp add: context_after_playVoice ref_playVoice)
qed

lemma session_contexts_created:
  "contexts_created (session cs st) =
     contexts_created st +
     (if (\<exists>c \<in> set cs. passes_guard c) \<and> audioContextRef st = None then 1 else 0)"
proof (induction cs arbitrary: st)
  case Nil
  then show ?case by simp
next
  case (Cons c cs)
  obtain en p where c: "c = (en, p)" by (cases c)
  show ?case
    unfolding c using Cons.IH [of "snd (playVoice en p st)"]
    by (simp add: contexts_created_playVoice ref_playVoice)
qed

lemma playVoice_depends_on_ref:
  assumes "audioContextRef st' = audioContextRef st"
  shows "fst (playVoice en p st') = fst (playVoice en p st) \<and>
         new_calls st' (snd (playVoice en p st')) = new_calls st (snd (playVoice en p st)) \<and>
         audioContextRef (snd (playVoice en p st')) = audioContextRef (snd (playVoice en p st))"
proof (cases "passes_guard (en, p)")
  case False
  then show ?thesis
    using assms by (simp add: playVoice_skipped)
next
  case True
  have same: "context_calls st' = context_calls st" "context_after st' = context_after st"
    using assms by (simp_all add: context_calls_def context_after_def)
  from playVoice_passed [OF True, of st] playVoice_passed [OF True, of st'] same
  show ?thesis
    by auto
qed

lemma contexts_created_initial [simp]: "contexts_created initial_state = 0"
  by (simp add: contexts_created_def)

text \<open>
  C8 fails on the code at a call whose payload \<open>atob\<close> rejects. The context is made
  before the payload is decoded: the call with the payload \<open>!\<close> makes the context, fails
  in \<open>atob\<close>, plays nothing and makes neither a buffer nor a source; the next call, the
  first one to play, finds the context made. So the context is not created by the first
  call that plays; and if a call that passes the guard counts as reaching playback, that
  call has created no buffer and no source.
\<close>

theorem C8_context_made_before_decoding:
  "fst (playVoice True (Some ''!'') initial_state) = Inl InvalidCharacterError \<and>
   calls (snd (playVoice True (Some ''!'') initial_state)) = [NewAudioContext 24000, Atob ''!''] \<and>
   audioContextRef (snd (playVoice True (Some ''!'') initial_state)) =
     Some \<lparr>ctx_sampleRate = 24000\<rparr> \<and>
   calls (session [(True, Some ''!''), (True, Some ''AAAAQADA/38AgA=='')] initial_state) =
     [NewAudioContext 24000, Atob ''!'',
      Atob ''AAAAQADA/38AgA=='', CreateBuffer 1 5 24000, CreateBufferSource,
      SetSourceBuffer (filled_buffer [0, 16384, - 16384, 32767, - 32768]), Connect, Start]"
proof -
  have a: "atob ''!'' = Inl InvalidCharacterError"
    by (simp add: atob_def strip_padding_def is_ascii_whitespace_def base64_value_def)
  have d: "decodePcm ''!'' = Inl InvalidCharacterError"
    using a by (rule decodePcm_atob_error)
  have n: "''!'' \<noteq> []" "''AAAAQADA/38AgA=='' \<noteq> []"
    by simp_all
  note first = playVoice_decode_error [OF n(1) d, of initial_state]
  have "context_calls (snd (playVoice True (Some ''!'') initial_state)) = []"
    using first(3) by (simp add: context_calls_def)
  then show ?thesis
    using first
      playVoice_samples [OF n(2) decodePcm_vector, of "snd (playVoice True (Some ''!'') initial_state)"]
    by simp
qed

text \<open>
  C8, as amended: a session has at most one playback context. The first call made with
  voice enabled and a non-empty payload creates it, before it decodes the payload, hence
  also when that call then fails and plays nothing; every later call finds it in the
  ref and leaves it there unchanged, and no call creates a second one or removes it.
  A call that does not pass the guard does nothing. A call that decodes at least one
  sample creates one buffer and one source of its own. What a call returns, what it
  logs and what it leaves in the ref depend on the state before it only through the ref.
\<close>

theorem C8_one_lazy_context:
  "contexts_created (session cs initial_state) = (if \<exists>c \<in> set cs. passes_guard c then 1 else 0) \<and>
   audioContextRef (session cs initial_state) =
     (if \<exists>c \<in> set cs. passes_guard c then Some \<lparr>ctx_sampleRate = 24000\<rparr> else None) \<and>
   (passes_guard (en, p) \<and> audioContextRef st = None \<longrightarrow>
      audioContextRef (snd (playVoice en p st)) = Some \<lparr>ctx_sampleRate = 24000\<rparr> \<and>
      filter is_NewAudioContext (new_calls st (snd (playVoice en p st))) =
        [NewAudioContext 24000]) \<and>
   (\<forall>ctx. audioContextRef st = Some ctx \<longrightarrow>
      audioContextRef (snd (playVoice en p st)) = Some ctx \<and>
      filter is_NewAudioContext (new_calls st (snd (playVoice en p st))) = []) \<and>
   (\<not> passes_guard (en, p) \<longrightarrow> playVoice en p st = (Inr (), st)) \<and>
   (\<forall>b ss. en \<and> p = Some b \<and> b \<noteq> [] \<and> decodePcm b = Inr ss \<and> ss \<noteq> [] \<longrightarrow>
      filter is_buffer_or_source (new_calls st (snd (playVoice en p st))) =
        [CreateBuffer 1 (length ss) 24000, CreateBufferSource]) \<and>
   (\<forall>st' :: app_state. audioContextRef st' = audioContextRef st \<longrightarrow>
      fst (playVoice en p st') = fst (playVoice en p st) \<and>
      new_calls st' (snd (playVoice en p st')) = new_calls st (snd (playVoice en p st)) \<and>
      audioContextRef (snd (playVoice en p st')) = audioContextRef (snd (playVoice en p st)))"
proof (intro conjI allI impI)
  show "contexts_created (session cs initial_state) =
      (if \<exists>c \<in> set cs. passes_guard c then 1 else 0)"
    by (simp add: session_contexts_created)
  show "audioContextRef (session cs initial_state) =
      (if \<exists>c \<in> set cs. passes_guard c then Some \<lparr>ctx_sampleRate = 24000\<rparr> else None)"
    by (simp add: session_ref)
next
  assume h: "passes_guard (en, p) \<and> audioContextRef st = None"
  then have g: "passes_guard (en, p)" and r: "audioContextRef st = None"
    by simp_all
  show "audioContextRef (snd (playVoice en p st)) = Some \<lparr>ctx_sampleRate = 24000\<rparr>"
    using playVoice_passed(1) [OF g, of st] context_of_ref(2) [OF r] by simp
  show "filter is_NewAudioContext (new_calls st (snd (playVoice en p st))) =
      [NewAudioContext 24000]"
    using playVoice_passed(2) [OF g, of st] context_of_ref(1) [OF r]
    by (auto simp: no_context_in_decode_calls)
next
  fix ctx assume r: "audioContextRef st = Some ctx"
  show "audioContextRef (snd (playVoice en p st)) = Some ctx"
    using context_of_ref(4) [OF r] r by (simp add: ref_playVoice)
  show "filter is_NewAudioContext (new_calls st (snd (playVoice en p st))) = []"
  proof (cases "passes_guard (en, p)")
    case True
    from playVoice_passed(2) [OF True, of st] context_of_ref(3) [OF r] show ?thesis
      by (auto simp: no_context_in_decode_calls)
  next
    case False
    then show ?thesis by (simp add: playVoice_skipped)
  qed
next
  assume "\<not> passes_guard (en, p)"
  then show "playVoice en p st = (Inr (), st)"
    by (rule playVoice_skipped)
next
  fix b ss
  assume h: "en \<and> p = Some b \<and> b \<noteq> [] \<and> decodePcm b = Inr ss \<and> ss \<noteq> []"
  then have "new_calls st (snd (playVoice en p st)) =
      context_calls st @
      [Atob b, CreateBuffer 1 (length ss) 24000, CreateBufferSource,
       SetSourceBuffer (filled_buffer ss), Connect, Start]"
    by (simp add: playVoice_samples)
  then show "filter is_buffer_or_source (new_calls st (snd (playVoice en p st))) =
      [CreateBuffer 1 (length ss) 24000, CreateBufferSource]"
    using context_calls_cases [of st] by auto
next
  fix st' :: app_state assume r: "audioContextRef st' = audioContextRef st"
  show "fst (playVoice en p st') = fst (playVoice en p st)"
    and "new_calls st' (snd (playVoice en p st')) = new_calls st (snd (playVoice en p st))"
    and "audioContextRef (snd (playVoice en p st')) = audioContextRef (snd (playVoice en p st))"
    using playVoice_depends_on_ref [OF r, of en p] by simp_all
qed

theorem C8_one_lazy_context_witness:
  "passes_guard (True, Some ''AAAAQADA/38AgA=='') \<and>
   \<not> passes_guard (False, Some ''AAAAQADA/38AgA=='') \<and>
   \<not> passes_guard (True, None) \<and>
   contexts_created
     (session [(True, None), (True, Some ''!''), (True, Some ''AAAAQADA/38AgA==''),
               (False, Some ''AAAA''), (True, Some ''AAAAQADA/38AgA=='')] initial_state) = 1 \<and>
   contexts_created (session [(True, None), (False, Some ''AAAA'')] initial_state) = 0 \<and>
   audioContextRef (snd (playVoice True (Some ''AAAAQADA/38AgA=='') initial_state)) =
     Some \<lparr>ctx_sampleRate = 24000\<rparr>"
proof -
  have g: "passes_guard (True, Some ''AAAAQADA/38AgA=='')"
    "\<not> passes_guard (False, Some ''AAAAQADA/38AgA=='')" "\<not> passes_guard (True, None)"
    "passes_guard (True, Some ''!'')" "\<not> passes_guard (False, Some ''AAAA'')"
    by (simp_all add: passes_guard_def)
  note a = C8_one_lazy_context [of
      "[(True, None), (True, Some ''!''), (True, Some ''AAAAQADA/38AgA==''),
        (False, Some ''AAAA''), (True, Some ''AAAAQADA/38AgA=='')]"
      True "Some ''AAAAQADA/38AgA==''" initial_state]
  note b = C8_one_lazy_context [of "[(True, None), (False, Some ''AAAA'')]"
      True "Some ''AAAAQADA/38AgA==''" initial_state, THEN conjunct1]
  from a have a1: "contexts_created
     (session [(True, None), (True, Some ''!''), (True, Some ''AAAAQADA/38AgA==''),
               (False, Some ''AAAA''), (True, Some ''AAAAQADA/38AgA=='')] initial_state) = 1"
    using g by simp
  from a have a3: "audioContextRef (snd (playVoice True (Some ''AAAAQADA/38AgA=='') initial_state)) =
     Some \<lparr>ctx_sampleRate = 24000\<rparr>"
    using g by simp
  from b have b1: "contexts_created (session [(True, None), (False, Some ''AAAA'')] initial_state) = 0"
    using g by simp
  show ?thesis
    using g a1 a3 b1 by simp
qed

section \<open>C9: voice disabled\<close>

text \<open>
  C9: with voice disabled the call resolves and leaves the state as it was, whatever the
  payload: no host call is logged, the ref is untouched.
\<close>

theorem C9_voice_disabled_is_noop:
  "playVoice False base64 st = (Inr (), st)"
  by (simp add: playVoice_guard)

theorem C9_voice_disabled_is_noop_witness:
  "decodePcm ''AAAAQADA/38AgA=='' = Inr [0, 16384, - 16384, 32767, - 32768] \<and>
   playVoice False (Some ''AAAAQADA/38AgA=='') initial_state = (Inr (), initial_state) \<and>
   audioContextRef initial_state = None \<and> calls initial_state = []"
  using C9_voice_disabled_is_noop [of "Some ''AAAAQADA/38AgA==''" initial_state]
  by (simp add: decodePcm_vector)

section \<open>C10: generateSenseiVoice\<close>

lemma lacks_audio_or_empty:
  assumes "lacks_audio response"
  shows "or_empty (inline_audio_data response) = []"
proof (cases "candidates response")
  case None
  then show ?thesis
    by (simp add: inline_audio_data_def first_element_def or_empty_def)
next
  case cs: (Some cs)
  show ?thesis
  proof (cases cs)
    case Nil
    with cs show ?thesis
      by (simp add: inline_audio_data_def first_element_def or_empty_def)
  next
    case (Cons c rest)
    note c = cs [unfolded Cons]
    show ?thesis
    proof (cases "content c")
      case None
      with c show ?thesis
        by (simp add: inline_audio_data_def first_element_def or_empty_def)
    next
      case ct: (Some ct)
      show ?thesis
      proof (cases "parts ct")
        case None
        with c ct show ?thesis
          by (simp add: inline_audio_data_def first_element_def or_empty_def)
      next
        case ps: (Some ps)
        show ?thesis
        proof (cases ps)
          case Nil
          with c ct ps show ?thesis
            by (simp add: inline_audio_data_def first_element_def or_empty_def)
        next
          case (Cons p rest')
          note p = ps [unfolded Cons]
          show ?thesis
          proof (cases "inlineData p")
            case None
            with c ct p show ?thesis
              by (simp add: inline_audio_data_def first_element_def or_empty_def)
          next
            case (Some b)
            with c ct p assms have "data b = None \<or> data b = Some []"
              by (simp add: lacks_audio_def)
            with c ct p Some show ?thesis
              by (auto simp: inline_audio_data_def first_element_def or_empty_def)
          qed
        qed
      qed
    qed
  qed
qed

lemma or_empty_Some: "or_empty (Some d) = d"
  by (simp add: or_empty_def)

text \<open>
  C10: whenever the provider answers, the function returns a string: the inline data of
  the first part of the first candidate when it is there, and the empty string when the
  response lacks it at any level; and \<open>playVoice\<close> on that empty string does nothing.
  (A rejection of the provider call is not caught: the function rejects with it.)
\<close>

theorem C10_voice_is_a_string:
  assumes "generateContent (tts_request_of text) = Inr response"
  shows "(\<exists>s. generateSenseiVoice generateContent text = Inr s) \<and>
         (lacks_audio response \<longrightarrow>
            generateSenseiVoice generateContent text = Inr [] \<and>
            playVoice isVoiceEnabled (Some []) st = (Inr (), st)) \<and>
         (\<forall>d. inline_audio_data response = Some d \<longrightarrow>
            generateSenseiVoice generateContent text = Inr d)"
  using assms
  by (simp add: generateSenseiVoice_def lacks_audio_or_empty or_empty_Some playVoice_guard)

theorem C10_voice_is_a_string_witness:
  "lacks_audio \<lparr>candidates = Some [\<lparr>content = Some \<lparr>parts = Some []\<rparr>\<rparr>]\<rparr> \<and>
   generateSenseiVoice
     (\<lambda>request. Inr \<lparr>candidates = Some [\<lparr>content = Some \<lparr>parts = Some []\<rparr>\<rparr>]\<rparr> :: js_error + generate_content_response)
     ''Shabash'' = Inr [] \<and>
   playVoice True (Some []) initial_state = (Inr (), initial_state)"
proof -
  let ?response = "\<lparr>candidates = Some [\<lparr>content = Some \<lparr>parts = Some []\<rparr>\<rparr>]\<rparr>"
  let ?provider = "\<lambda>request :: tts_request. Inr ?response :: js_error + generate_content_response"
  have h: "?provider (tts_request_of ''Shabash'') = Inr ?response" by simp
  have l: "lacks_audio ?response" by (simp add: lacks_audio_def)
  show ?thesis
    using l C10_voice_is_a_string [of ?provider "''Shabash''" ?response True initial_state, OF h]
    by simp
qed

end
